theory Spec2Isabelle
  imports Complex_Main "HOL-Library.Char_ord"
begin

section \<open>Python values and exceptions\<close>

text \<open>
  The program is one Python module: a class \<open>APIHandling\<close> that holds a checkin date
  and a list of offers parsed from JSON, a set of date helpers written without any date
  library, and five filters that replace the list of offers one after the other.

  An exception of the source is a value of \<open>py_error\<close>; a computation that may raise
  returns \<open>py_error + 'a\<close> with \<open>Inl\<close> the exception.  \<open>KeyError\<close> carries the missing
  key as Python prints it.  No exception is ever caught in the source, so an exception
  ends the run and the state at that moment is not observed.
\<close>

datatype py_error =
    AssertionError
  | IndexError
  | ValueError
  | KeyError string
  | AttributeError
  | TypeError
  | JSONDecodeError

definition bind_err :: "py_error + 'a \<Rightarrow> ('a \<Rightarrow> py_error + 'b) \<Rightarrow> py_error + 'b" where
  "bind_err r f = (case r of Inl e \<Rightarrow> Inl e | Inr x \<Rightarrow> f x)"

text \<open>
  Three places of the source call \<open>print\<close>.  What is printed is kept as a list of
  messages, oldest first; a computation that may print returns the messages together
  with its exception or value.
\<close>

datatype message =
    Please_fix_your_URL int
  | Invalid_MONTH int int int
  | Invalid_DAY int int int
  | Only_works_up_to_31

type_synonym 'a io = "message list \<times> (py_error + 'a)"

definition io_return :: "'a \<Rightarrow> 'a io" where
  "io_return x = ([], Inr x)"

definition io_raise :: "py_error \<Rightarrow> 'a io" where
  "io_raise e = ([], Inl e)"

definition io_lift :: "py_error + 'a \<Rightarrow> 'a io" where
  "io_lift r = ([], r)"

definition io_print :: "message \<Rightarrow> unit io" where
  "io_print m = ([m], Inr ())"

definition io_bind :: "'a io \<Rightarrow> ('a \<Rightarrow> 'b io) \<Rightarrow> 'b io" where
  "io_bind c f =
     (case c of
        (out, Inl e) \<Rightarrow> (out, Inl e)
      | (out, Inr x) \<Rightarrow> (case f x of (out', r) \<Rightarrow> (out @ out', r)))"

section \<open>Strings\<close>

text \<open>
  \<open>str.split(sep)\<close> with a one-character separator: the string is cut at every
  occurrence, so a string with \<open>k\<close> separators gives \<open>k + 1\<close> fields, empty ones
  included, and the empty string gives one empty field.
\<close>

fun py_split :: "char \<Rightarrow> string \<Rightarrow> string list" where
  "py_split sep [] = [[]]"
| "py_split sep (c # cs) =
     (if c = sep then [] # py_split sep cs
      else (case py_split sep cs of
              [] \<Rightarrow> [[c]]
            | f # fs \<Rightarrow> (c # f) # fs))"

definition is_digit :: "char \<Rightarrow> bool" where
  "is_digit c = (CHR ''0'' \<le> c \<and> c \<le> CHR ''9'')"

definition digit_value :: "char \<Rightarrow> int" where
  "digit_value c = int (of_char c) - 48"

definition decimal_value :: "string \<Rightarrow> int" where
  "decimal_value s = foldl (\<lambda>acc c. 10 * acc + digit_value c) 0 s"

text \<open>
  \<open>int(s)\<close> on the strings that reach it here.  The date strings are cut at every
  \<open>'-'\<close> first, so no field holds a sign; on a field of ASCII digits \<open>int\<close> returns its
  decimal value (leading zeros allowed), and on the empty field it raises
  \<open>ValueError\<close>.  Python's \<open>int\<close> also accepts surrounding blanks, a \<open>'+'\<close>,
  underscores between digits and non-ASCII digits, and the interpreter may cap the number of
  digits: the theorems below speak about strings of ASCII digits and \<open>'-'\<close> only, where
  none of this occurs, and every other field is reported as \<open>ValueError\<close>.
\<close>

definition py_int :: "string \<Rightarrow> py_error + int" where
  "py_int s =
     (if s \<noteq> [] \<and> list_all is_digit s then Inr (decimal_value s) else Inl ValueError)"

text \<open>\<open>str.upper()\<close> on ASCII text: the letters a to z are raised, every other byte is kept.\<close>

definition upper_char :: "char \<Rightarrow> char" where
  "upper_char c =
     (if CHR ''a'' \<le> c \<and> c \<le> CHR ''z'' then char_of (of_char c - (32 :: nat)) else c)"

definition upper :: "string \<Rightarrow> string" where
  "upper s = map upper_char s"

section \<open>Date helpers\<close>

text \<open>
  \<open>_get_year_month_day_from_str\<close>: the first three fields are read (a missing second or
  third field is an \<open>IndexError\<close>); the year is the first field unless the second or the
  third one has four characters, the third one winning.
\<close>

definition get_year_month_day_from_str :: "string \<Rightarrow> py_error + (int \<times> int \<times> int)" where
  "get_year_month_day_from_str cur_date_str =
     (let cur_dates = py_split (CHR ''-'') cur_date_str in
      if length cur_dates < 3 then Inl IndexError
      else
        let ymd0 = (cur_dates ! 0, cur_dates ! 1, cur_dates ! 2);
            ymd1 = (if length (cur_dates ! 1) = 4
                    then (cur_dates ! 1, cur_dates ! 0, cur_dates ! 2) else ymd0);
            ymd2 = (if length (cur_dates ! 2) = 4
                    then (cur_dates ! 2, cur_dates ! 0, cur_dates ! 1) else ymd1)
        in case ymd2 of (cur_year_str, cur_month_str, cur_day_str) \<Rightarrow>
             bind_err (py_int cur_year_str) (\<lambda>cur_year.
             bind_err (py_int cur_month_str) (\<lambda>cur_month.
             bind_err (py_int cur_day_str) (\<lambda>cur_day.
               Inr (cur_year, cur_month, cur_day)))))"

definition is_leap_year :: "int \<Rightarrow> bool" where
  "is_leap_year year = (year mod 4 = 0)"

definition get_no_days_in :: "int \<Rightarrow> int \<Rightarrow> py_error + int" where
  "get_no_days_in year month =
     (if \<not> (1 \<le> month \<and> month \<le> 12) then Inl AssertionError
      else if month = 2 then Inr (if is_leap_year year then 29 else 28)
      else Inr (if month \<in> set [4, 6, 9, 11] then 30 else 31))"

definition is_date_char :: "char \<Rightarrow> bool" where
  "is_date_char c = (is_digit c \<or> c = CHR ''-'')"

definition is_valid_date :: "string \<Rightarrow> bool \<Rightarrow> bool io" where
  "is_valid_date date_str is_testing =
     (if date_str = [] then io_return False
      else if \<not> list_all is_date_char date_str then io_return False
      else
        io_bind (io_lift (get_year_month_day_from_str date_str)) (\<lambda>(year, month, day).
          if \<not> (1 \<le> month \<and> month \<le> 12) then
            io_bind (if \<not> is_testing then io_print (Invalid_MONTH year month day)
                     else io_return ())
              (\<lambda>_. io_return False)
          else
            io_bind (io_lift (get_no_days_in year month)) (\<lambda>LAST_DAY.
              if \<not> (1 \<le> day \<and> day \<le> LAST_DAY) then
                io_bind (if \<not> is_testing then io_print (Invalid_DAY year month day)
                         else io_return ())
                  (\<lambda>_. io_return False)
              else io_return True)))"

text \<open>
  \<open>_get_last_stay_date\<close>: the assertion calls \<open>_is_valid_date\<close> with its default
  \<open>is_testing = True\<close>.
\<close>

definition get_last_stay_date :: "string \<Rightarrow> int \<Rightarrow> (int \<times> int \<times> int) io" where
  "get_last_stay_date date_str no_extended_days =
     io_bind (is_valid_date date_str True) (\<lambda>valid.
       if \<not> valid then io_raise AssertionError
       else if no_extended_days > 31 then
         io_bind (io_print Only_works_up_to_31) (\<lambda>_. io_return (- 1, - 1, - 1))
       else
         io_bind (io_lift (get_year_month_day_from_str date_str)) (\<lambda>(cur_year, cur_month, cur_day).
         io_bind (io_lift (get_no_days_in cur_year cur_month)) (\<lambda>no_days_in_cur_month.
           if cur_day + no_extended_days > no_days_in_cur_month then
             let new_month = cur_month + 1;
                 (new_year, new_month) =
                   (if new_month > 12 then (cur_year + 1, 1) else (cur_year, new_month));
                 new_day = cur_day + no_extended_days - no_days_in_cur_month
             in io_return (new_year, new_month, new_day)
           else io_return (cur_year, cur_month, cur_day + no_extended_days))))"

section \<open>Offers, merchants and the state of the pipeline\<close>

text \<open>
  An offer is a dictionary parsed from JSON.  The source reads five keys of it and
  checks or assumes that each is there, so each is an optional field here: \<open>None\<close> is a
  missing key.  Everything else the dictionary holds is kept in \<open>offer_rest\<close>, one entry
  per key.  A merchant is a dictionary too; only its \<open>distance\<close> is read.

  A distance is a JSON number as Python holds it.  Python compares integers and floats
  exactly, so a finite number is a real number here.  A JSON number beyond the range of a
  float, such as \<open>1e999\<close>, is read as the float \<open>inf\<close>, and \<open>-1e999\<close> as \<open>-inf\<close>: both
  are values of \<open>py_float\<close>, below and above every finite number, and \<open>math.inf\<close> is
  \<open>Plus_inf\<close>.  The \<open>NaN\<close> that Python's parser accepts beyond JSON is left out.

  The value under \<open>merchants\<close> is a list of merchants when the offer arrives and a single
  merchant once \<open>merchant_filter\<close> has run.  The offers of a working set are distinct
  objects, as the JSON parser creates them.
\<close>

datatype json_atom = JNull | JBool bool | JInt int | JReal real | JStr string

datatype py_float = Minus_inf | Finite real | Plus_inf

instantiation py_float :: linorder
begin

fun less_eq_py_float :: "py_float \<Rightarrow> py_float \<Rightarrow> bool" where
  "less_eq_py_float Minus_inf y = True"
| "less_eq_py_float (Finite a) Minus_inf = False"
| "less_eq_py_float (Finite a) (Finite b) = (a \<le> b)"
| "less_eq_py_float (Finite a) Plus_inf = True"
| "less_eq_py_float Plus_inf Plus_inf = True"
| "less_eq_py_float Plus_inf y = False"

definition less_py_float :: "py_float \<Rightarrow> py_float \<Rightarrow> bool" where
  "less_py_float x y = (x \<le> y \<and> \<not> y \<le> x)"

instance
proof
  fix x y z :: py_float
  show "(x < y) = (x \<le> y \<and> \<not> y \<le> x)" by (simp add: less_py_float_def)
  show "x \<le> x" by (cases x) simp_all
  show "x \<le> y \<Longrightarrow> y \<le> z \<Longrightarrow> x \<le> z" by (cases x; cases y; cases z) simp_all
  show "x \<le> y \<Longrightarrow> y \<le> x \<Longrightarrow> x = y" by (cases x; cases y) simp_all
  show "x \<le> y \<or> y \<le> x" by (cases x; cases y) auto
qed

end

record merchant =
  distance :: "py_float option"
  merchant_rest :: "(string \<times> json_atom) list"

datatype merchants_value = Merchant_list "merchant list" | Merchant_record merchant

record offer =
  offer_id :: "int option"
  category :: "int option"
  valid_to :: "string option"
  merchants :: "merchants_value option"
  offer_rest :: "(string \<times> json_atom) list"

text \<open>The object \<open>self\<close>: the two attributes the constructor sets.\<close>

record APIHandling =
  checkin_date :: string
  offers :: "offer list"

text \<open>
  The HTTP response as the constructor uses it: the status code, and what
  \<open>response.json()\<close> gives, an exception when the body is not JSON and otherwise the
  top-level object, a dictionary written as the list of its keys with their values, each
  key once.  Only the list of offers under one key is read.
\<close>

record response =
  status_code :: int
  json_body :: "py_error + (string \<times> offer list) list"

datatype CATEGORY = RESTAURANT | RETAIL | HOTEL | ACTIVITY

fun CATEGORY_value :: "CATEGORY \<Rightarrow> int" where
  "CATEGORY_value RESTAURANT = 1"
| "CATEGORY_value RETAIL = 2"
| "CATEGORY_value HOTEL = 3"
| "CATEGORY_value ACTIVITY = 4"

fun CATEGORY_name :: "CATEGORY \<Rightarrow> string" where
  "CATEGORY_name RESTAURANT = ''RESTAURANT''"
| "CATEGORY_name RETAIL = ''RETAIL''"
| "CATEGORY_name HOTEL = ''HOTEL''"
| "CATEGORY_name ACTIVITY = ''ACTIVITY''"

definition CATEGORY_members :: "CATEGORY list" where
  "CATEGORY_members = [RESTAURANT, RETAIL, HOTEL, ACTIVITY]"

text \<open>\<open>CATEGORY(v)\<close>: the member with that value, a \<open>ValueError\<close> when there is none.\<close>

definition CATEGORY_of_value :: "int \<Rightarrow> py_error + CATEGORY" where
  "CATEGORY_of_value v =
     (case find (\<lambda>c. CATEGORY_value c = v) CATEGORY_members of
        None \<Rightarrow> Inl ValueError
      | Some c \<Rightarrow> Inr c)"

section \<open>Construction\<close>

definition is_valid_response :: "response \<Rightarrow> bool io" where
  "is_valid_response response =
     io_bind (if \<not> status_code response = 200
              then io_print (Please_fix_your_URL (status_code response))
              else io_return ())
       (\<lambda>_. io_return True)"

text \<open>\<open>a and b\<close> is \<open>a\<close> when \<open>a\<close> is false and \<open>b\<close> otherwise; \<open>b\<close> is then not run.\<close>

definition validate_input :: "response \<Rightarrow> string \<Rightarrow> bool io" where
  "validate_input response checkin =
     io_bind (is_valid_response response) (\<lambda>valid_response.
       if valid_response then is_valid_date checkin False else io_return valid_response)"

definition receive_offers :: "response \<Rightarrow> py_error + offer list" where
  "receive_offers response =
     bind_err (json_body response) (\<lambda>response_json.
       case map_of response_json ''offers'' of
         None \<Rightarrow> Inl AssertionError
       | Some received \<Rightarrow> Inr received)"

text \<open>
  \<open>__init__\<close>, from the response that \<open>requests.get\<close> has returned: the fetch itself is
  outside the model.
\<close>

definition APIHandling_init :: "response \<Rightarrow> string \<Rightarrow> APIHandling io" where
  "APIHandling_init response checkin =
     io_bind (validate_input response checkin) (\<lambda>valid.
       if \<not> valid then io_raise AssertionError
       else io_bind (io_lift (receive_offers response)) (\<lambda>received.
              io_return \<lparr>checkin_date = checkin, offers = received\<rparr>))"

section \<open>Helpers of the filters\<close>

definition standardize_category_names :: "string list \<Rightarrow> string list" where
  "standardize_category_names category_names = map upper category_names"

definition get_category_enum :: "int \<Rightarrow> py_error + string" where
  "get_category_enum category_id =
     (if category_id \<notin> set (map CATEGORY_value CATEGORY_members) then Inl AssertionError
      else bind_err (CATEGORY_of_value category_id) (\<lambda>c. Inr (CATEGORY_name c)))"

text \<open>
  The dictionary from category names to lists of offers is an association list in
  insertion order, which is the order \<open>items()\<close> walks; its keys stay distinct.
  \<open>dict_append m k v\<close> is \<open>m[k].append(v)\<close> for a key that is there.
\<close>

definition dict_append :: "('k \<times> 'v list) list \<Rightarrow> 'k \<Rightarrow> 'v \<Rightarrow> ('k \<times> 'v list) list" where
  "dict_append m key v = map (\<lambda>(k, vs). if k = key then (k, vs @ [v]) else (k, vs)) m"

fun get_category_offers_map_loop ::
  "offer list \<Rightarrow> (string \<times> offer list) list \<Rightarrow> py_error + (string \<times> offer list) list" where
  "get_category_offers_map_loop [] category_offers_map = Inr category_offers_map"
| "get_category_offers_map_loop (offer # rest) category_offers_map =
     (case category offer of
        None \<Rightarrow> Inl AssertionError
      | Some category_id \<Rightarrow>
          (case get_category_enum category_id of
             Inl e \<Rightarrow> Inl e
           | Inr category_name \<Rightarrow>
               get_category_offers_map_loop rest
                 (dict_append
                    (if category_name \<notin> set (map fst category_offers_map)
                     then category_offers_map @ [(category_name, [])]
                     else category_offers_map)
                    category_name offer)))"

definition get_category_offers_map :: "APIHandling \<Rightarrow> py_error + (string \<times> offer list) list" where
  "get_category_offers_map self = get_category_offers_map_loop (offers self) []"

text \<open>
  \<open>_is_expired\<close> returns \<open>True\<close>, \<open>False\<close> or, where the same year meets an earlier
  month, nothing at all, which is Python's \<open>None\<close>.  Its optional third parameter is
  assigned and never read: the date that counts is the one of \<open>self\<close>.
\<close>

definition is_expired :: "APIHandling \<Rightarrow> string \<Rightarrow> int \<Rightarrow> string \<Rightarrow> bool option io" where
  "is_expired self valid_to_date_str no_extended_days checkin_date_arg =
     (let checkin_date_local =
            (if checkin_date_arg = [] then checkin_date self else checkin_date_arg)
      in
      io_bind (get_last_stay_date (checkin_date self) no_extended_days)
        (\<lambda>(cur_year, cur_month, cur_day).
      io_bind (io_lift (get_year_month_day_from_str valid_to_date_str))
        (\<lambda>(expiry_year, expiry_month, expiry_day).
          if cur_year > expiry_year then io_return (Some True)
          else if cur_year = expiry_year then
            (if cur_month > expiry_month then io_return (Some True)
             else if cur_month = expiry_month then
               (if cur_day > expiry_day then io_return (Some True)
                else io_return (Some False))
             else io_return None)
          else io_return (Some False))))"

text \<open>\<open>not r\<close> for what \<open>_is_expired\<close> returns: \<open>None\<close> counts as false.\<close>

definition py_not :: "bool option \<Rightarrow> bool" where
  "py_not r = (case r of None \<Rightarrow> True | Some b \<Rightarrow> \<not> b)"





text \<open>
  \<open>list.sort(key=...)\<close>: the keys of all elements are computed first, left to right, and
  the first failure is raised; then the list is sorted by key, elements with equal keys
  keeping their order.
\<close>

fun sort_keys :: "('a \<Rightarrow> py_error + py_float) \<Rightarrow> 'a list \<Rightarrow> py_error + py_float list" where
  "sort_keys key [] = Inr []"
| "sort_keys key (x # xs) =
     (case key x of
        Inl e \<Rightarrow> Inl e
      | Inr k \<Rightarrow> (case sort_keys key xs of Inl e \<Rightarrow> Inl e | Inr ks \<Rightarrow> Inr (k # ks)))"

definition py_sort :: "('a \<Rightarrow> py_error + py_float) \<Rightarrow> 'a list \<Rightarrow> py_error + 'a list" where
  "py_sort key xs =
     bind_err (sort_keys key xs) (\<lambda>ks. Inr (map snd (sort_key fst (zip ks xs))))"

text \<open>\<open>x['distance']\<close> on a merchant record.\<close>

definition merchant_distance :: "merchant \<Rightarrow> py_error + py_float" where
  "merchant_distance x =
     (case distance x of None \<Rightarrow> Inl (KeyError ''distance'') | Some d \<Rightarrow> Inr d)"

text \<open>
  \<open>x['merchants']['distance']\<close> on an offer: a list cannot be indexed by a string.
\<close>

definition offer_merchant_distance :: "offer \<Rightarrow> py_error + py_float" where
  "offer_merchant_distance x =
     (case merchants x of
        None \<Rightarrow> Inl (KeyError ''merchants'')
      | Some (Merchant_list ms) \<Rightarrow> Inl TypeError
      | Some (Merchant_record m) \<Rightarrow> merchant_distance m)"

text \<open>
  The three operations \<open>merchant_filter\<close> applies to the value under \<open>merchants\<close>.
  On a list they are the list's; on a merchant record \<open>len\<close> counts its keys, there is
  no \<open>sort\<close> attribute, and \<open>[0]\<close> looks up the key \<open>0\<close>, which a record parsed from JSON
  never has.
\<close>

definition merchants_len :: "merchants_value \<Rightarrow> nat" where
  "merchants_len v =
     (case v of
        Merchant_list ms \<Rightarrow> length ms
      | Merchant_record m \<Rightarrow>
          (if distance m = None then 0 else 1) + length (merchant_rest m))"

definition merchants_sort :: "merchants_value \<Rightarrow> py_error + merchants_value" where
  "merchants_sort v =
     (case v of
        Merchant_list ms \<Rightarrow>
          bind_err (py_sort merchant_distance ms) (\<lambda>sorted_ms. Inr (Merchant_list sorted_ms))
      | Merchant_record m \<Rightarrow> Inl AttributeError)"

definition merchants_first :: "merchants_value \<Rightarrow> py_error + merchant" where
  "merchants_first v =
     (case v of
        Merchant_list [] \<Rightarrow> Inl IndexError
      | Merchant_list (m # ms) \<Rightarrow> Inr m
      | Merchant_record m \<Rightarrow> Inl (KeyError ''0''))"

section \<open>The filters\<close>

text \<open>
  Each filter ends by writing the working set to a file
  (\<open>TestFilter.write_to_file\<close>); the files are a trace and are not modelled.
\<close>

fun category_filter_loop ::
  "(string \<times> offer list) list \<Rightarrow> string list \<Rightarrow> offer list \<Rightarrow> py_error + offer list" where
  "category_filter_loop categoryName_offers_map [] answers = Inr answers"
| "category_filter_loop categoryName_offers_map (category_name # rest) answers =
     (case map_of categoryName_offers_map category_name of
        None \<Rightarrow> Inl (KeyError category_name)
      | Some found \<Rightarrow> category_filter_loop categoryName_offers_map rest (answers @ found))"

definition category_filter :: "APIHandling \<Rightarrow> string list \<Rightarrow> py_error + APIHandling" where
  "category_filter self desired_categories =
     (let category_names_set = standardize_category_names desired_categories in
      bind_err (get_category_offers_map self) (\<lambda>categoryName_offers_map.
      bind_err (category_filter_loop categoryName_offers_map category_names_set []) (\<lambda>answers.
        Inr (self\<lparr>offers := answers\<rparr>))))"

fun date_filter_loop ::
  "APIHandling \<Rightarrow> int \<Rightarrow> offer list \<Rightarrow> offer list \<Rightarrow> offer list io" where
  "date_filter_loop self no_extended_days [] answers = io_return answers"
| "date_filter_loop self no_extended_days (offer # rest) answers =
     (case valid_to offer of
        None \<Rightarrow> io_raise (KeyError ''valid_to'')
      | Some valid_to_date \<Rightarrow>
          (case is_expired self valid_to_date no_extended_days [] of
             (out, Inl e) \<Rightarrow> (out, Inl e)
           | (out, Inr expired) \<Rightarrow>
               (case date_filter_loop self no_extended_days rest
                       (if py_not expired then answers @ [offer] else answers) of
                  (out', r) \<Rightarrow> (out @ out', r))))"

definition date_filter :: "APIHandling \<Rightarrow> int \<Rightarrow> APIHandling io" where
  "date_filter self no_extended_days =
     io_bind (date_filter_loop self no_extended_days (offers self) []) (\<lambda>answers.
       io_return (self\<lparr>offers := answers\<rparr>))"

text \<open>The body of the loop of \<open>merchant_filter\<close>, for one offer.\<close>

definition merchant_filter_offer :: "offer \<Rightarrow> py_error + offer" where
  "merchant_filter_offer offer =
     (case merchants offer of
        None \<Rightarrow> Inl (KeyError ''merchants'')
      | Some v \<Rightarrow>
          bind_err (if merchants_len v > 1 then merchants_sort v else Inr v) (\<lambda>sorted_v.
          bind_err (merchants_first sorted_v) (\<lambda>m.
            Inr (offer\<lparr>merchants := Some (Merchant_record m)\<rparr>))))"

fun merchant_filter_loop :: "offer list \<Rightarrow> py_error + offer list" where
  "merchant_filter_loop [] = Inr []"
| "merchant_filter_loop (offer # rest) =
     (case merchant_filter_offer offer of
        Inl e \<Rightarrow> Inl e
      | Inr new_offer \<Rightarrow>
          (case merchant_filter_loop rest of
             Inl e \<Rightarrow> Inl e
           | Inr new_rest \<Rightarrow> Inr (new_offer # new_rest)))"

definition merchant_filter :: "APIHandling \<Rightarrow> py_error + APIHandling" where
  "merchant_filter self =
     bind_err (merchant_filter_loop (offers self)) (\<lambda>new_offers.
       Inr (self\<lparr>offers := new_offers\<rparr>))"

fun closest_merchant_per_category_loop ::
  "(string \<times> offer list) list \<Rightarrow> offer list \<Rightarrow> py_error + offer list" where
  "closest_merchant_per_category_loop [] answers = Inr answers"
| "closest_merchant_per_category_loop ((categoryName, category_offers) # rest) answers =
     (case py_sort offer_merchant_distance category_offers of
        Inl e \<Rightarrow> Inl e
      | Inr [] \<Rightarrow> Inl IndexError
      | Inr (first # others) \<Rightarrow>
          closest_merchant_per_category_loop rest (answers @ [first]))"

definition closest_merchant_per_category_filter :: "APIHandling \<Rightarrow> py_error + APIHandling" where
  "closest_merchant_per_category_filter self =
     bind_err (get_category_offers_map self) (\<lambda>categoryName_offer_map.
     bind_err (closest_merchant_per_category_loop categoryName_offer_map []) (\<lambda>answers.
       Inr (self\<lparr>offers := answers\<rparr>)))"



definition get_offers :: "APIHandling \<Rightarrow> offer list" where
  "get_offers self = offers self"

section \<open>Notions of the specification\<close>

text \<open>
  The specification's \<open>isAfter\<close>: a lexicographic comparison of two dates on year, then
  month, then day.  It is written from the specification's words, to be compared with
  what \<open>_is_expired\<close> computes.
\<close>

fun spec_is_after :: "int \<times> int \<times> int \<Rightarrow> int \<times> int \<times> int \<Rightarrow> bool" where
  "spec_is_after (year_a, month_a, day_a) (year_b, month_b, day_b) =
     (year_a > year_b
      \<or> (year_a = year_b \<and> (month_a > month_b \<or> (month_a = month_b \<and> day_a > day_b))))"

text \<open>
  The expiry date of an offer as \<open>date_filter\<close> reads it: the value under \<open>valid_to\<close>
  given to the source's own parser.  The specification keeps an offer when the last day
  of the stay is not after that date.
\<close>

definition parsed_valid_to :: "offer \<Rightarrow> (int \<times> int \<times> int) option" where
  "parsed_valid_to offer =
     (case valid_to offer of
        None \<Rightarrow> None
      | Some valid_to_date \<Rightarrow>
          (case get_year_month_day_from_str valid_to_date of
             Inl e \<Rightarrow> None
           | Inr expiry \<Rightarrow> Some expiry))"

definition spec_keeps :: "int \<times> int \<times> int \<Rightarrow> offer \<Rightarrow> bool" where
  "spec_keeps last_stay_date offer =
     (case parsed_valid_to offer of
        None \<Rightarrow> False
      | Some expiry \<Rightarrow> \<not> spec_is_after last_stay_date expiry)"

text \<open>
  The category name of an offer, where its category id is one of the four of the
  enumeration; the specification's invariant on offers is that it always is.
\<close>

definition offer_category_name :: "offer \<Rightarrow> string option" where
  "offer_category_name offer =
     (case category offer of
        None \<Rightarrow> None
      | Some category_id \<Rightarrow>
          (case get_category_enum category_id of Inl e \<Rightarrow> None | Inr name \<Rightarrow> Some name))"

definition has_valid_category :: "offer \<Rightarrow> bool" where
  "has_valid_category offer =
     (case category offer of None \<Rightarrow> False | Some category_id \<Rightarrow> category_id \<in> {1, 2, 3, 4})"

text \<open>The list stored under a key of the category dictionary, empty when the key is absent.\<close>

definition lookup_group :: "(string \<times> offer list) list \<Rightarrow> string \<Rightarrow> offer list" where
  "lookup_group m k = (case map_of m k of None \<Rightarrow> [] | Some vs \<Rightarrow> vs)"

text \<open>
  What \<open>merchant_filter\<close> expects and what it leaves.  An offer as it arrives carries a
  non-empty list of merchant records, each with a distance.  A merchant is closest in a
  list when it belongs to the list and no merchant of the list is nearer.  An offer is
  collapsed to a closest merchant when it differs from the old one only in carrying,
  instead of the list, one closest merchant of it as a single record.
\<close>

definition has_distance :: "merchant \<Rightarrow> bool" where
  "has_distance m = (case distance m of None \<Rightarrow> False | Some d \<Rightarrow> True)"

definition carries_merchant_list :: "offer \<Rightarrow> bool" where
  "carries_merchant_list offer =
     (case merchants offer of
        Some (Merchant_list ms) \<Rightarrow> ms \<noteq> [] \<and> list_all has_distance ms
      | _ \<Rightarrow> False)"

definition closest_in :: "merchant \<Rightarrow> merchant list \<Rightarrow> bool" where
  "closest_in m ms =
     (m \<in> set ms \<and> list_all (\<lambda>x. the (distance m) \<le> the (distance x)) ms)"

definition collapsed_to_closest :: "offer \<Rightarrow> offer \<Rightarrow> bool" where
  "collapsed_to_closest old new =
     (case merchants old of
        Some (Merchant_list ms) \<Rightarrow>
          (case merchants new of
             Some (Merchant_record m) \<Rightarrow>
               closest_in m ms \<and> new = old\<lparr>merchants := Some (Merchant_record m)\<rparr>
           | _ \<Rightarrow> False)
      | _ \<Rightarrow> False)"

text \<open>
  An offer as the last two filters expect it: the value under \<open>merchants\<close> is a single
  merchant record with a distance.  Its merchant distance is what the source's own
  subscript \<open>x['merchants']['distance']\<close> gives.
\<close>

definition has_single_merchant :: "offer \<Rightarrow> bool" where
  "has_single_merchant offer =
     (case merchants offer of Some (Merchant_record m) \<Rightarrow> has_distance m | _ \<Rightarrow> False)"

definition offer_distance :: "offer \<Rightarrow> py_float" where
  "offer_distance offer =
     (case offer_merchant_distance offer of Inl e \<Rightarrow> Finite 0 | Inr d \<Rightarrow> d)"




section \<open>Sample data\<close>

text \<open>Offers in the shape the endpoint serves them, used to run the filters.\<close>

definition merchant_near :: merchant where
  "merchant_near =
     \<lparr>distance = Some (Finite 0.5), merchant_rest = [(''id'', JInt 1), (''name'', JStr ''Near'')]\<rparr>"

definition merchant_far :: merchant where
  "merchant_far =
     \<lparr>distance = Some (Finite 1.2), merchant_rest = [(''id'', JInt 2), (''name'', JStr ''Far'')]\<rparr>"

definition merchant_mid :: merchant where
  "merchant_mid =
     \<lparr>distance = Some (Finite 0.8), merchant_rest = [(''id'', JInt 3), (''name'', JStr ''Mid'')]\<rparr>"

definition merchant_bare :: merchant where
  "merchant_bare = \<lparr>distance = Some (Finite 0.3), merchant_rest = []\<rparr>"

definition offer_a :: offer where
  "offer_a =
     \<lparr>offer_id = Some 1, category = Some 1, valid_to = Some ''2023-05-04'',
      merchants = Some (Merchant_list [merchant_far, merchant_near]),
      offer_rest = [(''title'', JStr ''Offer 1'')]\<rparr>"

definition offer_b :: offer where
  "offer_b =
     \<lparr>offer_id = Some 2, category = Some 2, valid_to = Some ''2023-05-05'',
      merchants = Some (Merchant_list [merchant_mid]),
      offer_rest = [(''title'', JStr ''Offer 2'')]\<rparr>"

definition offer_c :: offer where
  "offer_c =
     \<lparr>offer_id = Some 3, category = Some 2, valid_to = Some ''2023-12-31'',
      merchants = Some (Merchant_list [merchant_bare]),
      offer_rest = [(''title'', JStr ''Offer 3'')]\<rparr>"

text \<open>The same offers once \<open>merchant_filter\<close> has left each with its closest merchant.\<close>

definition single_a :: offer where
  "single_a = offer_a\<lparr>merchants := Some (Merchant_record merchant_near)\<rparr>"

definition single_b :: offer where
  "single_b = offer_b\<lparr>merchants := Some (Merchant_record merchant_mid)\<rparr>"

definition single_c :: offer where
  "single_c = offer_c\<lparr>merchants := Some (Merchant_record merchant_bare)\<rparr>"

text \<open>
  An offer whose only merchant is at the distance the JSON number \<open>1e999\<close> is read as.
\<close>

definition merchant_beyond :: merchant where
  "merchant_beyond =
     \<lparr>distance = Some Plus_inf,
      merchant_rest = [(''id'', JInt 4), (''name'', JStr ''Beyond'')]\<rparr>"

definition single_d :: offer where
  "single_d =
     \<lparr>offer_id = Some 4, category = Some 3, valid_to = Some ''2023-12-31'',
      merchants = Some (Merchant_record merchant_beyond),
      offer_rest = [(''title'', JStr ''Offer 4'')]\<rparr>"

section \<open>Properties of the string helpers\<close>

lemma io_bind_return [simp]: "io_bind (io_return x) f = f x"
  by (simp add: io_bind_def io_return_def split: prod.splits)

lemma io_bind_lift_Inr [simp]: "io_bind (io_lift (Inr x)) f = f x"
  by (simp add: io_bind_def io_lift_def split: prod.splits)

lemma io_bind_lift_Inl [simp]: "io_bind (io_lift (Inl e)) f = ([], Inl e)"
  by (simp add: io_bind_def io_lift_def)

lemma io_bind_Inr [simp]: "io_bind (out, Inr x) f = (out @ fst (f x), snd (f x))"
  by (simp add: io_bind_def split: prod.splits)

lemma io_bind_Inl [simp]: "io_bind (out, Inl e) f = (out, Inl e)"
  by (simp add: io_bind_def)

lemma io_bind_print [simp]: "io_bind (io_print m) f = (m # fst (f ()), snd (f ()))"
  by (simp add: io_print_def)

lemma fst_io_return [simp]: "fst (io_return x) = []"
  by (simp add: io_return_def)

lemma snd_io_return [simp]: "snd (io_return x) = Inr x"
  by (simp add: io_return_def)

lemma fst_io_raise [simp]: "fst (io_raise e) = []"
  by (simp add: io_raise_def)

lemma snd_io_raise [simp]: "snd (io_raise e) = Inl e"
  by (simp add: io_raise_def)

lemmas date_defs =
  get_last_stay_date_def is_valid_date_def is_date_char_def get_no_days_in_def
  is_leap_year_def get_year_month_day_from_str_def py_int_def is_digit_def
  decimal_value_def digit_value_def

lemma bind_err_Inr [simp]: "bind_err (Inr x) f = f x"
  by (simp add: bind_err_def)

lemma bind_err_Inl [simp]: "bind_err (Inl e) f = Inl e"
  by (simp add: bind_err_def)

lemma py_split_not_Nil [simp]: "py_split sep s \<noteq> []"
  by (cases s) (auto split: list.splits)

lemma py_split_no_sep: "sep \<notin> set a \<Longrightarrow> py_split sep a = [a]"
  by (induction a) auto

lemma py_split_append: "sep \<notin> set a \<Longrightarrow> py_split sep (a @ sep # rest) = a # py_split sep rest"
  by (induction a) auto

lemma py_split_fields: "f \<in> set (py_split sep s) \<Longrightarrow> set f \<subseteq> set s - {sep}"
proof (induction s arbitrary: f)
  case Nil
  then show ?case by simp
next
  case (Cons c cs)
  show ?case
  proof (cases "c = sep")
    case True
    with Cons show ?thesis by auto
  next
    case False
    obtain g gs where split: "py_split sep cs = g # gs"
      by (cases "py_split sep cs") auto
    with False Cons.prems have "f = c # g \<or> f \<in> set gs" by auto
    then show ?thesis
    proof
      assume "f = c # g"
      moreover have "set g \<subseteq> set cs - {sep}" using Cons.IH [of g] split by simp
      ultimately show ?thesis using False by auto
    next
      assume "f \<in> set gs"
      then have "set f \<subseteq> set cs - {sep}" using Cons.IH [of f] split by simp
      then show ?thesis by auto
    qed
  qed
qed

lemma is_digit_not_dash: "is_digit c \<Longrightarrow> c \<noteq> CHR ''-''"
  by (auto simp: is_digit_def)

lemma py_int_digits: "s \<noteq> [] \<Longrightarrow> list_all is_digit s \<Longrightarrow> py_int s = Inr (decimal_value s)"
  by (simp add: py_int_def)

lemma split_three_fields:
  assumes "CHR ''-'' \<notin> set a" "CHR ''-'' \<notin> set b" "CHR ''-'' \<notin> set c"
  shows "py_split (CHR ''-'') (a @ ''-'' @ b @ ''-'' @ c) = [a, b, c]"
  using assms by (simp add: py_split_append py_split_no_sep)

lemma digits_no_dash: "list_all is_digit a \<Longrightarrow> CHR ''-'' \<notin> set a"
  by (auto simp: list_all_iff dest: is_digit_not_dash)

section \<open>Parsing a date\<close>

text \<open>
  Claim C4.  Take a date string made of exactly three non-empty fields of digits joined
  by \<open>'-'\<close>, of which only the year field has four characters.  When the year comes first
  (YYYY-MM-DD) the parser returns the first field as the year, the second as the month
  and the third as the day; when the year comes last (MM-DD-YYYY) it returns the third
  field as the year, the first as the month and the second as the day.  Each field is
  returned as the integer it spells.
\<close>

theorem parse_year_field:
  assumes "a \<noteq> []" "b \<noteq> []" "c \<noteq> []"
    and "list_all is_digit a" "list_all is_digit b" "list_all is_digit c"
  shows "(length a = 4 \<and> length b \<noteq> 4 \<and> length c \<noteq> 4 \<longrightarrow>
            get_year_month_day_from_str (a @ ''-'' @ b @ ''-'' @ c)
              = Inr (decimal_value a, decimal_value b, decimal_value c))
       \<and> (length c = 4 \<and> length a \<noteq> 4 \<and> length b \<noteq> 4 \<longrightarrow>
            get_year_month_day_from_str (a @ ''-'' @ b @ ''-'' @ c)
              = Inr (decimal_value c, decimal_value a, decimal_value b))"
proof -
  have "py_split (CHR ''-'') (a @ ''-'' @ b @ ''-'' @ c) = [a, b, c]"
    using assms by (intro split_three_fields digits_no_dash)
  then show ?thesis
    using assms by (simp add: get_year_month_day_from_str_def py_int_digits)
qed

theorem parse_year_field_witness:
  "get_year_month_day_from_str ''2023-04-30'' = Inr (2023, 4, 30)
   \<and> get_year_month_day_from_str ''4-30-2023'' = Inr (2023, 4, 30)"
proof -
  have d: "decimal_value ''2023'' = 2023" "decimal_value ''04'' = 4" "decimal_value ''30'' = 30"
    "decimal_value ''4'' = 4"
    by (simp_all add: decimal_value_def digit_value_def)
  have 1: "get_year_month_day_from_str ''2023-04-30'' = Inr (2023, 4, 30)"
    using parse_year_field [of "''2023''" "''04''" "''30''"] d by (simp add: is_digit_def)
  have 2: "get_year_month_day_from_str ''4-30-2023'' = Inr (2023, 4, 30)"
    using parse_year_field [of "''4''" "''30''" "''2023''"] d by (simp add: is_digit_def)
  from 1 2 show ?thesis by simp
qed

section \<open>Valid dates and the last day of a stay\<close>

lemma is_valid_date_TrueD:
  assumes "snd (is_valid_date s t) = Inr True"
  shows "\<exists>y m d dim. get_year_month_day_from_str s = Inr (y, m, d) \<and> 1 \<le> m \<and> m \<le> 12
            \<and> get_no_days_in y m = Inr dim \<and> 1 \<le> d \<and> d \<le> dim"
proof (cases "get_year_month_day_from_str s")
  case (Inl e)
  with assms show ?thesis
    by (simp add: is_valid_date_def split: if_splits)
next
  case (Inr ymd)
  obtain y m d where ymd: "ymd = (y, m, d)" by (cases ymd) auto
  show ?thesis
  proof (cases "get_no_days_in y m")
    case (Inl e)
    with assms Inr ymd show ?thesis
      by (simp add: is_valid_date_def get_no_days_in_def split: if_splits)
  next
    case dim: (Inr dim)
    with assms Inr ymd show ?thesis
      by (simp add: is_valid_date_def split: if_splits)
  qed
qed

lemma is_valid_date_testing_out:
  "fst (is_valid_date s True) = []"
  by (cases "get_year_month_day_from_str s")
     (auto simp: is_valid_date_def get_no_days_in_def split: if_splits prod.splits)

lemma is_valid_date_True_eq:
  "snd (is_valid_date s True) = Inr True \<Longrightarrow> is_valid_date s True = ([], Inr True)"
  using is_valid_date_testing_out [of s] by (simp add: prod_eq_iff)

text \<open>
  Claim C5.  For a date string that \<open>_is_valid_date\<close> accepts and that parses to
  \<open>(y, m, d)\<close>, and for \<open>0 \<le> n \<le> 31\<close>, \<open>_get_last_stay_date\<close> prints nothing and returns
  \<open>(y, m, d + n)\<close> when \<open>d + n\<close> does not exceed the number of days of the month, and
  otherwise the next month (month 13 becoming month 1 of the next year) with day
  \<open>d + n\<close> minus the number of days of the month.  The three examples of the source's own
  test hold.
\<close>

theorem get_last_stay_date_rolls:
  "(snd (is_valid_date s True) = Inr True \<and> get_year_month_day_from_str s = Inr (y, m, d)
      \<and> 0 \<le> n \<and> n \<le> 31 \<longrightarrow>
      (\<exists>dim. get_no_days_in y m = Inr dim \<and>
         get_last_stay_date s n =
           ([], Inr (if d + n \<le> dim then (y, m, d + n)
                     else if m + 1 = 13 then (y + 1, 1, d + n - dim)
                     else (y, m + 1, d + n - dim)))))
   \<and> get_last_stay_date ''4-30-2023'' 5 = ([], Inr (2023, 5, 5))
   \<and> get_last_stay_date ''4-25-2023'' 5 = ([], Inr (2023, 4, 30))
   \<and> get_last_stay_date ''2-28-2023'' 2 = ([], Inr (2023, 3, 2))"
proof -
  have general: "\<exists>dim. get_no_days_in y m = Inr dim \<and>
         get_last_stay_date s n =
           ([], Inr (if d + n \<le> dim then (y, m, d + n)
                     else if m + 1 = 13 then (y + 1, 1, d + n - dim)
                     else (y, m + 1, d + n - dim)))"
    if valid: "snd (is_valid_date s True) = Inr True"
      and parse: "get_year_month_day_from_str s = Inr (y, m, d)" and n: "n \<le> 31"
  proof -
    from is_valid_date_TrueD [OF valid] parse obtain dim
      where dim: "get_no_days_in y m = Inr dim" and m: "1 \<le> m" "m \<le> 12" by auto
    have "get_last_stay_date s n =
           ([], Inr (if d + n \<le> dim then (y, m, d + n)
                     else if m + 1 = 13 then (y + 1, 1, d + n - dim)
                     else (y, m + 1, d + n - dim)))"
      using parse dim n m
      by (simp add: get_last_stay_date_def is_valid_date_True_eq [OF valid] io_return_def)
    with dim show ?thesis by blast
  qed
  have e1: "get_last_stay_date ''4-30-2023'' 5 = ([], Inr (2023, 5, 5))"
    by (simp add: date_defs prod_eq_iff)
  have e2: "get_last_stay_date ''4-25-2023'' 5 = ([], Inr (2023, 4, 30))"
    by (simp add: date_defs prod_eq_iff)
  have e3: "get_last_stay_date ''2-28-2023'' 2 = ([], Inr (2023, 3, 2))"
    by (simp add: date_defs prod_eq_iff)
  from general e1 e2 e3 show ?thesis by blast
qed

theorem get_last_stay_date_rolls_witness:
  "get_last_stay_date ''12-31-2023'' 1 = ([], Inr (2024, 1, 1))
   \<and> get_last_stay_date ''2024-02-10'' 19 = ([], Inr (2024, 2, 29))"
proof -
  have v1: "snd (is_valid_date ''12-31-2023'' True) = Inr True"
    and p1: "get_year_month_day_from_str ''12-31-2023'' = Inr (2023, 12, 31)"
    and v2: "snd (is_valid_date ''2024-02-10'' True) = Inr True"
    and p2: "get_year_month_day_from_str ''2024-02-10'' = Inr (2024, 2, 10)"
    by (simp_all add: date_defs)
  have d: "get_no_days_in 2023 12 = Inr 31" "get_no_days_in 2024 2 = Inr 29"
    by (simp_all add: get_no_days_in_def is_leap_year_def)
  have 1: "get_last_stay_date ''12-31-2023'' 1 = ([], Inr (2024, 1, 1))"
    using get_last_stay_date_rolls [of "''12-31-2023''" 2023 12 31 1] v1 p1 d by simp
  have 2: "get_last_stay_date ''2024-02-10'' 19 = ([], Inr (2024, 2, 29))"
    using get_last_stay_date_rolls [of "''2024-02-10''" 2024 2 10 19] v2 p2 d by simp
  from 1 2 show ?thesis by simp
qed

text \<open>
  Claim C6.  For a date string that \<open>_is_valid_date\<close> accepts and for \<open>n > 31\<close>,
  \<open>_get_last_stay_date\<close> raises nothing: it prints its one message and returns the triple
  \<open>(-1, -1, -1)\<close>.
\<close>

theorem get_last_stay_date_over_31:
  "snd (is_valid_date s True) = Inr True \<Longrightarrow> n > 31 \<Longrightarrow>
     get_last_stay_date s n = ([Only_works_up_to_31], Inr (- 1, - 1, - 1))"
  by (simp add: get_last_stay_date_def is_valid_date_True_eq io_return_def)

theorem get_last_stay_date_over_31_witness:
  "get_last_stay_date ''4-30-2023'' 32 = ([Only_works_up_to_31], Inr (- 1, - 1, - 1))"
proof -
  have v: "snd (is_valid_date ''4-30-2023'' True) = Inr True"
    by (simp add: date_defs)
  show ?thesis using get_last_stay_date_over_31 [OF v, of 32] by simp
qed

section \<open>Where the validator raises\<close>

lemma field_digits:
  assumes "list_all is_date_char s" "i < length (py_split (CHR ''-'') s)"
  shows "list_all is_digit (py_split (CHR ''-'') s ! i)"
proof -
  have "py_split (CHR ''-'') s ! i \<in> set (py_split (CHR ''-'') s)"
    using assms(2) by simp
  then have "set (py_split (CHR ''-'') s ! i) \<subseteq> set s - {CHR ''-''}"
    by (rule py_split_fields)
  with assms(1) show ?thesis
    by (auto simp: list_all_iff is_date_char_def)
qed

lemma py_int_field:
  "list_all is_digit f \<Longrightarrow> py_int f = (if f = [] then Inl ValueError else Inr (decimal_value f))"
  by (simp add: py_int_def)

lemma parse_too_few_fields:
  "length (py_split (CHR ''-'') s) < 3 \<Longrightarrow> get_year_month_day_from_str s = Inl IndexError"
  by (simp add: get_year_month_day_from_str_def)

lemma parse_empty_field:
  assumes "list_all is_date_char s" "3 \<le> length (py_split (CHR ''-'') s)"
    and "py_split (CHR ''-'') s ! 0 = [] \<or> py_split (CHR ''-'') s ! 1 = []
          \<or> py_split (CHR ''-'') s ! 2 = []"
  shows "get_year_month_day_from_str s = Inl ValueError"
proof -
  have "list_all is_digit (py_split (CHR ''-'') s ! 0)"
    "list_all is_digit (py_split (CHR ''-'') s ! 1)"
    "list_all is_digit (py_split (CHR ''-'') s ! 2)"
    using assms(1,2) by (simp_all add: field_digits)
  then show ?thesis
    using assms(2,3) by (auto simp: get_year_month_day_from_str_def Let_def py_int_field)
qed

lemma parse_full_fields:
  assumes "list_all is_date_char s" "3 \<le> length (py_split (CHR ''-'') s)"
    and "py_split (CHR ''-'') s ! 0 \<noteq> []" "py_split (CHR ''-'') s ! 1 \<noteq> []"
      "py_split (CHR ''-'') s ! 2 \<noteq> []"
  shows "\<exists>y m d. get_year_month_day_from_str s = Inr (y, m, d)"
proof -
  have "list_all is_digit (py_split (CHR ''-'') s ! 0)"
    "list_all is_digit (py_split (CHR ''-'') s ! 1)"
    "list_all is_digit (py_split (CHR ''-'') s ! 2)"
    using assms(1,2) by (simp_all add: field_digits)
  then show ?thesis
    using assms(2-) by (auto simp: get_year_month_day_from_str_def Let_def py_int_field)
qed

lemma is_valid_date_parsed:
  assumes "s \<noteq> []" "list_all is_date_char s" "get_year_month_day_from_str s = Inr (y, m, d)"
  shows "\<exists>out b. is_valid_date s t = (out, Inr b)"
  using assms
  by (auto simp: is_valid_date_def get_no_days_in_def io_return_def io_print_def)

text \<open>
  Claim C10.  The validator raises on some non-empty strings of digits and \<open>'-'\<close>:
  on \<open>"1-2"\<close> an \<open>IndexError\<close> and on \<open>"1--2023"\<close> a \<open>ValueError\<close>.  On every non-empty
  string of digits and \<open>'-'\<close> it raises an \<open>IndexError\<close> when the string has fewer than
  three fields, a \<open>ValueError\<close> when one of its first three fields is empty, and returns
  a truth value otherwise: it is total exactly where the string splits into at least
  three fields of which the first three are non-empty.
\<close>

theorem is_valid_date_raises:
  "list_all is_date_char ''1-2'' \<and> is_valid_date ''1-2'' t = ([], Inl IndexError)
   \<and> list_all is_date_char ''1--2023'' \<and> is_valid_date ''1--2023'' t = ([], Inl ValueError)
   \<and> (s \<noteq> [] \<and> list_all is_date_char s \<longrightarrow>
        (let fields = py_split (CHR ''-'') s in
         if length fields < 3 then is_valid_date s t = ([], Inl IndexError)
         else if fields ! 0 = [] \<or> fields ! 1 = [] \<or> fields ! 2 = []
           then is_valid_date s t = ([], Inl ValueError)
         else \<exists>out b. is_valid_date s t = (out, Inr b)))"
proof -
  have e1: "list_all is_date_char ''1-2''" "is_valid_date ''1-2'' t = ([], Inl IndexError)"
    by (simp_all add: date_defs)
  have e2: "list_all is_date_char ''1--2023''"
    "is_valid_date ''1--2023'' t = ([], Inl ValueError)"
    by (simp_all add: date_defs)
  have general: "let fields = py_split (CHR ''-'') s in
         if length fields < 3 then is_valid_date s t = ([], Inl IndexError)
         else if fields ! 0 = [] \<or> fields ! 1 = [] \<or> fields ! 2 = []
           then is_valid_date s t = ([], Inl ValueError)
         else \<exists>out b. is_valid_date s t = (out, Inr b)"
    if s: "s \<noteq> []" "list_all is_date_char s"
  proof -
    consider (few) "length (py_split (CHR ''-'') s) < 3"
      | (empty) "3 \<le> length (py_split (CHR ''-'') s)"
          "py_split (CHR ''-'') s ! 0 = [] \<or> py_split (CHR ''-'') s ! 1 = []
            \<or> py_split (CHR ''-'') s ! 2 = []"
      | (full) "3 \<le> length (py_split (CHR ''-'') s)"
          "py_split (CHR ''-'') s ! 0 \<noteq> []" "py_split (CHR ''-'') s ! 1 \<noteq> []"
          "py_split (CHR ''-'') s ! 2 \<noteq> []"
      by fastforce
    then show ?thesis
    proof cases
      case few
      with s show ?thesis
        by (simp add: is_valid_date_def parse_too_few_fields)
    next
      case empty
      with s show ?thesis
        by (simp add: is_valid_date_def parse_empty_field Let_def)
    next
      case full
      with s obtain y m d where "get_year_month_day_from_str s = Inr (y, m, d)"
        using parse_full_fields by blast
      with s have "\<exists>out b. is_valid_date s t = (out, Inr b)"
        by (rule is_valid_date_parsed)
      with full show ?thesis by (simp add: Let_def)
    qed
  qed
  from e1 e2 general show ?thesis by blast
qed

theorem is_valid_date_raises_witness:
  "is_valid_date ''2023-1-'' False = ([], Inl ValueError)
   \<and> is_valid_date ''-'' False = ([], Inl IndexError)
   \<and> (\<exists>out b. is_valid_date ''1-2-3'' False = (out, Inr b))"
proof -
  have f: "py_split (CHR ''-'') ''2023-1-'' = [''2023'', ''1'', '''']"
    "py_split (CHR ''-'') ''-'' = ['''', '''']"
    "py_split (CHR ''-'') ''1-2-3'' = [''1'', ''2'', ''3'']"
    by simp_all
  have c: "list_all is_date_char ''2023-1-''" "list_all is_date_char ''-''"
    "list_all is_date_char ''1-2-3''"
    by (simp_all add: is_date_char_def is_digit_def)
  have 1: "is_valid_date ''2023-1-'' False = ([], Inl ValueError)"
    using is_valid_date_raises [of False "''2023-1-''"] f c by simp
  have 2: "is_valid_date ''-'' False = ([], Inl IndexError)"
    using is_valid_date_raises [of False "''-''"] f c by simp
  have 3: "\<exists>out b. is_valid_date ''1-2-3'' False = (out, Inr b)"
    using is_valid_date_raises [of False "''1-2-3''"] f c by simp
  from 1 2 3 show ?thesis by simp
qed

section \<open>The date filter\<close>

lemma is_valid_date_flag: "snd (is_valid_date s t) = snd (is_valid_date s t')"
  by (cases "get_year_month_day_from_str s")
     (auto simp: is_valid_date_def get_no_days_in_def split: if_splits prod.splits)

lemma get_last_stay_date_returns:
  assumes "snd (is_valid_date s t) = Inr True" "n \<le> 31"
  shows "\<exists>last_day. get_last_stay_date s n = ([], Inr last_day)"
proof -
  have valid: "snd (is_valid_date s True) = Inr True"
    using assms(1) is_valid_date_flag [of s True t] by simp
  from is_valid_date_TrueD [OF valid] obtain y m d dim
    where "get_year_month_day_from_str s = Inr (y, m, d)" "get_no_days_in y m = Inr dim"
    by blast
  then show ?thesis
    using assms(2)
    by (simp add: get_last_stay_date_def is_valid_date_True_eq [OF valid] io_return_def Let_def)
qed

lemma is_expired_after:
  assumes "get_last_stay_date (checkin_date self) n = ([], Inr last_day)"
    and "get_year_month_day_from_str v = Inr expiry"
  shows "\<exists>r. is_expired self v n a = ([], Inr r) \<and> py_not r = (\<not> spec_is_after last_day expiry)"
proof -
  obtain cy cm cd where last_day: "last_day = (cy, cm, cd)" by (cases last_day) auto
  obtain ey em ed where expiry: "expiry = (ey, em, ed)" by (cases expiry) auto
  show ?thesis
    using assms unfolding last_day expiry
    by (auto simp: is_expired_def Let_def io_return_def py_not_def)
qed

lemma date_filter_loop_keeps:
  assumes "get_last_stay_date (checkin_date self) n = ([], Inr last_day)"
    and "\<forall>offer \<in> set os. parsed_valid_to offer \<noteq> None"
  shows "date_filter_loop self n os answers = ([], Inr (answers @ filter (spec_keeps last_day) os))"
  using assms(2)
proof (induction os arbitrary: answers)
  case Nil
  show ?case by (simp add: io_return_def)
next
  case (Cons offer rest)
  from Cons.prems obtain v expiry where v: "valid_to offer = Some v"
    and expiry: "get_year_month_day_from_str v = Inr expiry"
    by (auto simp: parsed_valid_to_def split: option.splits sum.splits)
  from is_expired_after [OF assms(1) expiry, of "[]"] obtain r
    where r: "is_expired self v n [] = ([], Inr r)"
      and keep: "py_not r = (\<not> spec_is_after last_day expiry)" by blast
  have spec: "spec_keeps last_day offer = (\<not> spec_is_after last_day expiry)"
    using v expiry by (simp add: spec_keeps_def parsed_valid_to_def)
  have rest: "\<forall>offer \<in> set rest. parsed_valid_to offer \<noteq> None"
    using Cons.prems by simp
  show ?case
    using v r keep spec Cons.IH [OF rest] by simp
qed

text \<open>
  Claim C2.  Let the checkin date of \<open>self\<close> be one that \<open>_is_valid_date\<close> accepts, let
  \<open>0 \<le> n \<le> 31\<close>, and let every offer carry a \<open>valid_to\<close> string that the parser reads.
  Then \<open>date_filter\<close> prints nothing, raises nothing and leaves exactly the offers, in
  their order, for which the date returned by \<open>_get_last_stay_date\<close> is not after the
  parsed \<open>valid_to\<close> date, comparing year, then month, then day.
\<close>

theorem date_filter_keeps:
  assumes "snd (is_valid_date (checkin_date self) t) = Inr True"
    and "0 \<le> n" "n \<le> 31"
    and "\<forall>offer \<in> set (offers self). parsed_valid_to offer \<noteq> None"
  shows "\<exists>last_day. get_last_stay_date (checkin_date self) n = ([], Inr last_day)
           \<and> date_filter self n =
               ([], Inr (self\<lparr>offers := filter (spec_keeps last_day) (offers self)\<rparr>))"
proof -
  from get_last_stay_date_returns [OF assms(1,3)] obtain last_day
    where last_day: "get_last_stay_date (checkin_date self) n = ([], Inr last_day)" by blast
  have "date_filter self n =
          ([], Inr (self\<lparr>offers := filter (spec_keeps last_day) (offers self)\<rparr>))"
    by (simp add: date_filter_def date_filter_loop_keeps [OF last_day assms(4)] io_return_def)
  with last_day show ?thesis by blast
qed

theorem date_filter_keeps_witness:
  "date_filter \<lparr>checkin_date = ''4-30-2023'', offers = [offer_a, offer_b, offer_c]\<rparr> 5
     = ([], Inr \<lparr>checkin_date = ''4-30-2023'', offers = [offer_b, offer_c]\<rparr>)"
proof -
  let ?self = "\<lparr>checkin_date = ''4-30-2023'', offers = [offer_a, offer_b, offer_c]\<rparr>"
  have valid: "snd (is_valid_date (checkin_date ?self) False) = Inr True"
    by (simp add: date_defs)
  have last_day: "get_last_stay_date ''4-30-2023'' 5 = ([], Inr (2023, 5, 5))"
    by (simp add: date_defs prod_eq_iff)
  have p: "parsed_valid_to offer_a = Some (2023, 5, 4)"
    "parsed_valid_to offer_b = Some (2023, 5, 5)"
    "parsed_valid_to offer_c = Some (2023, 12, 31)"
    by (simp_all add: parsed_valid_to_def offer_a_def offer_b_def offer_c_def date_defs)
  have wf: "\<forall>offer \<in> set (offers ?self). parsed_valid_to offer \<noteq> None"
    using p by simp
  have n: "(0::int) \<le> 5" "(5::int) \<le> 31" by simp_all
  from date_filter_keeps [OF valid n wf] last_day p show ?thesis
    by (simp add: spec_keeps_def)
qed

section \<open>When construction succeeds\<close>

lemma is_valid_response_eq:
  "is_valid_response response =
     (if status_code response = 200 then [] else [Please_fix_your_URL (status_code response)],
      Inr True)"
  by (simp add: is_valid_response_def io_return_def)

lemma validate_input_eq:
  "validate_input response checkin =
     ((if status_code response = 200 then [] else [Please_fix_your_URL (status_code response)])
        @ fst (is_valid_date checkin False),
      snd (is_valid_date checkin False))"
  by (simp add: validate_input_def is_valid_response_eq)

text \<open>
  Claim C8 says that construction succeeds exactly when the checkin date is valid.  It
  does not: with a valid checkin date and a response of status 200 whose body is the
  empty JSON object, the constructor passes the validation and then fails the assertion
  of \<open>_receive_offers\<close>.
\<close>

theorem construction_counterexample:
  "snd (is_valid_date ''1-1-2023'' False) = Inr True
   \<and> APIHandling_init \<lparr>status_code = 200, json_body = Inr []\<rparr> ''1-1-2023''
       = ([], Inl AssertionError)"
  by (simp add: APIHandling_init_def validate_input_eq receive_offers_def date_defs)

text \<open>
  Claim C8, amended.  \<open>_is_valid_response\<close> returns \<open>True\<close> for every response and
  prints its message exactly when the status code is not 200; \<open>_validate_input\<close>
  therefore returns or raises what \<open>_is_valid_date\<close> does on the checkin date.
  Construction succeeds exactly when the checkin date is valid and the body of the
  response is a JSON object with the key \<open>offers\<close>; the object built then holds that
  checkin date and the list under that key.
\<close>

theorem construction_succeeds_iff:
  "is_valid_response response =
     (if status_code response = 200 then [] else [Please_fix_your_URL (status_code response)],
      Inr True)
   \<and> snd (validate_input response checkin) = snd (is_valid_date checkin False)
   \<and> ((\<exists>out self. APIHandling_init response checkin = (out, Inr self)) \<longleftrightarrow>
        (snd (is_valid_date checkin False) = Inr True
         \<and> (\<exists>body received. json_body response = Inr body
               \<and> map_of body ''offers'' = Some received)))
   \<and> (\<forall>out self. APIHandling_init response checkin = (out, Inr self) \<longrightarrow>
         checkin_date self = checkin
         \<and> (\<exists>body. json_body response = Inr body
               \<and> map_of body ''offers'' = Some (offers self)))"
proof -
  have init: "APIHandling_init response checkin =
      (case snd (is_valid_date checkin False) of
         Inl e \<Rightarrow> (fst (validate_input response checkin), Inl e)
       | Inr valid \<Rightarrow>
           if \<not> valid then (fst (validate_input response checkin), Inl AssertionError)
           else (case receive_offers response of
                   Inl e \<Rightarrow> (fst (validate_input response checkin), Inl e)
                 | Inr received \<Rightarrow>
                     (fst (validate_input response checkin),
                      Inr \<lparr>checkin_date = checkin, offers = received\<rparr>)))"
    by (cases "snd (is_valid_date checkin False)"; cases "receive_offers response")
       (simp_all add: APIHandling_init_def validate_input_eq io_return_def)
  have recv: "receive_offers response =
      (case json_body response of
         Inl e \<Rightarrow> Inl e
       | Inr body \<Rightarrow> (case map_of body ''offers'' of
                        None \<Rightarrow> Inl AssertionError | Some received \<Rightarrow> Inr received))"
    by (simp add: receive_offers_def bind_err_def)
  have 3: "(\<exists>out self. APIHandling_init response checkin = (out, Inr self)) \<longleftrightarrow>
        (snd (is_valid_date checkin False) = Inr True
         \<and> (\<exists>body received. json_body response = Inr body
               \<and> map_of body ''offers'' = Some received))"
    unfolding init recv
    by (auto split: sum.splits option.splits)
  have 4: "\<forall>out self. APIHandling_init response checkin = (out, Inr self) \<longrightarrow>
         checkin_date self = checkin
         \<and> (\<exists>body. json_body response = Inr body
               \<and> map_of body ''offers'' = Some (offers self))"
    unfolding init recv
    by (auto split: sum.splits option.splits if_splits)
  show ?thesis
    using is_valid_response_eq validate_input_eq 3 4 by simp
qed


theorem construction_succeeds_iff_witness:
  "\<exists>out self.
     APIHandling_init \<lparr>status_code = 404, json_body = Inr [(''offers'', [])]\<rparr> ''1-1-2023''
       = (out, Inr self)"
proof -
  have valid: "snd (is_valid_date ''1-1-2023'' False) = Inr True"
    by (simp add: date_defs)
  show ?thesis
    using construction_succeeds_iff
      [of "\<lparr>status_code = 404, json_body = Inr [(''offers'', [])]\<rparr>" "''1-1-2023''"] valid
    by simp
qed

section \<open>The category dictionary and the category filter\<close>

lemma get_category_enum_eq:
  "get_category_enum category_id =
     (if category_id = 1 then Inr ''RESTAURANT''
      else if category_id = 2 then Inr ''RETAIL''
      else if category_id = 3 then Inr ''HOTEL''
      else if category_id = 4 then Inr ''ACTIVITY''
      else Inl AssertionError)"
  by (simp add: get_category_enum_def CATEGORY_of_value_def CATEGORY_members_def)

lemma has_valid_category_name:
  "has_valid_category offer \<longleftrightarrow> offer_category_name offer \<noteq> None"
  by (simp add: has_valid_category_def offer_category_name_def get_category_enum_eq
      split: option.splits)

lemmas category_defs =
  category_filter_def standardize_category_names_def upper_def upper_char_def char_of_eq_iff
  get_category_offers_map_def dict_append_def get_category_enum_def CATEGORY_of_value_def
  CATEGORY_members_def offer_category_name_def has_valid_category_def

lemma map_fst_dict_append [simp]: "map fst (dict_append m k v) = map fst m"
  by (induction m) (auto simp: dict_append_def)

lemma map_of_dict_append:
  "map_of (dict_append m k v) x =
     (case map_of m x of None \<Rightarrow> None | Some vs \<Rightarrow> Some (if x = k then vs @ [v] else vs))"
  by (induction m) (auto simp: dict_append_def)

lemma map_of_new_key:
  "k \<notin> set (map fst m) \<Longrightarrow> map_of (m @ [(k, [])]) x = (if x = k then Some [] else map_of m x)"
  by (induction m) auto

lemma lookup_group_step:
  "lookup_group
     (dict_append (if k \<notin> set (map fst m) then m @ [(k, [])] else m) k v) x
   = (if x = k then lookup_group m k @ [v] else lookup_group m x)"
proof (cases "k \<in> set (map fst m)")
  case True
  then obtain vs where "map_of m k = Some vs"
    by (metis map_of_eq_None_iff not_Some_eq set_map)
  with True show ?thesis
    by (auto simp: lookup_group_def map_of_dict_append split: option.splits)
next
  case False
  then have "map_of m k = None"
    by (simp add: map_of_eq_None_iff)
  with False show ?thesis
    by (auto simp: lookup_group_def map_of_dict_append map_of_new_key split: option.splits)
qed

lemma keys_step:
  "set (map fst (dict_append (if k \<notin> set (map fst m) then m @ [(k, [])] else m) k v))
     = insert k (set (map fst m))"
  by auto

lemma distinct_step:
  "distinct (map fst m) \<Longrightarrow>
     distinct (map fst (dict_append (if k \<notin> set (map fst m) then m @ [(k, [])] else m) k v))"
  by auto

lemma get_category_offers_map_loop_result:
  assumes "\<forall>offer \<in> set os. offer_category_name offer \<noteq> None" "distinct (map fst m)"
  shows "\<exists>m'. get_category_offers_map_loop os m = Inr m'
           \<and> distinct (map fst m')
           \<and> set (map fst m') = set (map fst m) \<union> {k. \<exists>offer \<in> set os. offer_category_name offer = Some k}
           \<and> (\<forall>k. lookup_group m' k
                 = lookup_group m k @ filter (\<lambda>offer. offer_category_name offer = Some k) os)"
  using assms
proof (induction os arbitrary: m)
  case Nil
  then show ?case by simp
next
  case (Cons offer rest)
  from Cons.prems(1) obtain cid name where cid: "category offer = Some cid"
    and name: "get_category_enum cid = Inr name"
    by (auto simp: offer_category_name_def split: option.splits sum.splits)
  then have ocn: "offer_category_name offer = Some name"
    by (simp add: offer_category_name_def)
  let ?m1 = "dict_append (if name \<notin> set (map fst m) then m @ [(name, [])] else m) name offer"
  have d1: "distinct (map fst ?m1)" using Cons.prems(2) by (rule distinct_step)
  have rest: "\<forall>offer \<in> set rest. offer_category_name offer \<noteq> None"
    using Cons.prems(1) by simp
  from Cons.IH [OF rest d1] obtain m' where
    m': "get_category_offers_map_loop rest ?m1 = Inr m'" "distinct (map fst m')"
      "set (map fst m') = set (map fst ?m1) \<union> {k. \<exists>offer \<in> set rest. offer_category_name offer = Some k}"
      "\<forall>k. lookup_group m' k
                 = lookup_group ?m1 k @ filter (\<lambda>offer. offer_category_name offer = Some k) rest"
    by blast
  have run: "get_category_offers_map_loop (offer # rest) m = Inr m'"
    using cid name m'(1) by simp
  have keys: "set (map fst m') = set (map fst m) \<union> {k. \<exists>x \<in> set (offer # rest). offer_category_name x = Some k}"
    unfolding m'(3) keys_step using ocn by auto
  have groups: "\<forall>k. lookup_group m' k
                 = lookup_group m k @ filter (\<lambda>x. offer_category_name x = Some k) (offer # rest)"
    using m'(4) ocn unfolding lookup_group_step by auto
  from run m'(2) keys groups show ?case by blast
qed

lemma get_category_offers_map_result:
  assumes "\<forall>offer \<in> set (offers self). offer_category_name offer \<noteq> None"
  shows "\<exists>m'. get_category_offers_map self = Inr m'
           \<and> distinct (map fst m')
           \<and> set (map fst m') = {k. \<exists>offer \<in> set (offers self). offer_category_name offer = Some k}
           \<and> (\<forall>k. lookup_group m' k
                 = filter (\<lambda>offer. offer_category_name offer = Some k) (offers self))"
  using get_category_offers_map_loop_result [OF assms, of "[]"]
  by (simp add: get_category_offers_map_def lookup_group_def)

lemma category_filter_loop_missing:
  "\<exists>name \<in> set names. map_of m name = None \<Longrightarrow>
     \<exists>key. category_filter_loop m names answers = Inl (KeyError key)
        \<and> key \<in> set names \<and> map_of m key = None"
proof (induction names arbitrary: answers)
  case Nil
  then show ?case by simp
next
  case (Cons name rest)
  show ?case
  proof (cases "map_of m name")
    case None
    then show ?thesis by auto
  next
    case (Some found)
    with Cons.prems have "\<exists>name \<in> set rest. map_of m name = None" by auto
    from Cons.IH [OF this, of "answers @ found"] Some show ?thesis by auto
  qed
qed

text \<open>
  Claim C7.  Let every offer of the working set have a category id among 1, 2, 3, 4, as
  the data model requires.  If one of the requested names, once uppercased, is the
  category name of no offer of the working set, \<open>category_filter\<close> raises a \<open>KeyError\<close>
  for such a name instead of returning a result.
\<close>

theorem category_filter_missing_key:
  assumes "\<forall>offer \<in> set (offers self). has_valid_category offer"
    and "\<exists>name \<in> set (standardize_category_names desired_categories).
           \<forall>offer \<in> set (offers self). offer_category_name offer \<noteq> Some name"
  shows "\<exists>key. category_filter self desired_categories = Inl (KeyError key)
           \<and> key \<in> set (standardize_category_names desired_categories)
           \<and> (\<forall>offer \<in> set (offers self). offer_category_name offer \<noteq> Some key)"
proof -
  have named: "\<forall>offer \<in> set (offers self). offer_category_name offer \<noteq> None"
    using assms(1) by (simp add: has_valid_category_name)
  from get_category_offers_map_result [OF named] obtain m where
    m: "get_category_offers_map self = Inr m"
    and keys: "set (map fst m) = {k. \<exists>offer \<in> set (offers self). offer_category_name offer = Some k}"
    by blast
  have none: "map_of m k = None \<longleftrightarrow> (\<forall>offer \<in> set (offers self). offer_category_name offer \<noteq> Some k)"
    for k
    using keys by (auto simp: map_of_eq_None_iff simp flip: set_map)
  from assms(2) have "\<exists>name \<in> set (standardize_category_names desired_categories). map_of m name = None"
    by (simp add: none)
  from category_filter_loop_missing [OF this, of "[]"] obtain key where
    "category_filter_loop m (standardize_category_names desired_categories) [] = Inl (KeyError key)"
    "key \<in> set (standardize_category_names desired_categories)" "map_of m key = None"
    by blast
  then show ?thesis
    using m by (auto simp: category_filter_def none)
qed


theorem category_filter_missing_key_witness:
  "category_filter \<lparr>checkin_date = ''4-30-2023'', offers = [offer_a, offer_b, offer_c]\<rparr>
     [''Restaurant'', ''Hotel''] = Inl (KeyError ''HOTEL'')"
proof -
  let ?self = "\<lparr>checkin_date = ''4-30-2023'', offers = [offer_a, offer_b, offer_c]\<rparr>"
  have names: "offer_category_name offer_a = Some ''RESTAURANT''"
    "offer_category_name offer_b = Some ''RETAIL''"
    "offer_category_name offer_c = Some ''RETAIL''"
    by (simp_all add: category_defs offer_a_def offer_b_def offer_c_def)
  have wanted: "standardize_category_names [''Restaurant'', ''Hotel''] = [''RESTAURANT'', ''HOTEL'']"
    by (simp add: category_defs)
  have valid: "\<forall>offer \<in> set (offers ?self). has_valid_category offer"
    by (simp add: category_defs offer_a_def offer_b_def offer_c_def)
  have missing: "\<exists>name \<in> set (standardize_category_names [''Restaurant'', ''Hotel'']).
           \<forall>offer \<in> set (offers ?self). offer_category_name offer \<noteq> Some name"
    using names wanted by simp
  from category_filter_missing_key [OF valid missing] obtain key where
    key: "category_filter ?self [''Restaurant'', ''Hotel''] = Inl (KeyError key)"
      "key \<in> set (standardize_category_names [''Restaurant'', ''Hotel''])"
      "\<forall>offer \<in> set (offers ?self). offer_category_name offer \<noteq> Some key"
    by blast
  from key(2,3) names have "key = ''HOTEL''"
    unfolding wanted by auto
  with key(1) show ?thesis by simp
qed

section \<open>Sorting by a key\<close>

lemmas merchant_defs =
  merchant_filter_def merchant_filter_offer_def merchants_len_def merchants_sort_def
  merchants_first_def py_sort_def merchant_distance_def

lemmas sample_defs =
  offer_a_def offer_b_def offer_c_def single_a_def single_b_def single_c_def single_d_def
  merchant_near_def merchant_far_def merchant_mid_def merchant_bare_def merchant_beyond_def

lemma sort_keys_all:
  "\<forall>x \<in> set xs. key x = Inr (f x) \<Longrightarrow> sort_keys key xs = Inr (map f xs)"
  by (induction xs) auto

lemma map_snd_insort_key:
  "\<forall>p \<in> set ps. fst p = f (snd p) \<Longrightarrow>
     map snd (insort_key fst (f x, x) ps) = insort_key f x (map snd ps)"
  by (induction ps) auto

lemma set_insort_key_pairs:
  "\<forall>p \<in> set ps. fst p = f (snd p) \<Longrightarrow>
     \<forall>p \<in> set (insort_key fst (f x, x) ps). fst p = f (snd p)"
  by (auto simp: set_insort_key)

lemma sort_key_zip:
  "(\<forall>p \<in> set (sort_key fst (zip (map f xs) xs)). fst p = f (snd p))
   \<and> map snd (sort_key fst (zip (map f xs) xs)) = sort_key f xs"
proof (induction xs)
  case Nil
  then show ?case by simp
next
  case (Cons x xs)
  then show ?case
    using map_snd_insort_key [of "sort_key fst (zip (map f xs) xs)" f x]
    by (auto simp: set_insort_key)
qed

lemma py_sort_all:
  assumes "\<forall>x \<in> set xs. key x = Inr (f x)"
  shows "py_sort key xs = Inr (sort_key f xs)"
  using sort_keys_all [OF assms] sort_key_zip [of f xs]
  by (simp add: py_sort_def)

lemma sort_key_hd_least:
  assumes "xs \<noteq> []"
  shows "hd (sort_key f xs) \<in> set xs \<and> (\<forall>x \<in> set xs. f (hd (sort_key f xs)) \<le> f x)"
proof -
  have ne: "sort_key f xs \<noteq> []" using assms by (metis length_0_conv length_sort)
  then obtain y ys where ys: "sort_key f xs = y # ys" by (cases "sort_key f xs") auto
  have "sorted (map f (y # ys))" using sorted_sort_key [of f xs] ys by simp
  then have "\<forall>x \<in> set (y # ys). f y \<le> f x" by auto
  moreover have "set (y # ys) = set xs" using set_sort [of f xs] ys by simp
  ultimately show ?thesis using ys by auto
qed

section \<open>The merchant filter\<close>

lemma merchant_filter_offer_list:
  assumes "carries_merchant_list offer"
  shows "\<exists>new. merchant_filter_offer offer = Inr new \<and> collapsed_to_closest offer new"
proof -
  from assms obtain ms where ms: "merchants offer = Some (Merchant_list ms)" "ms \<noteq> []"
    and dist: "\<forall>m \<in> set ms. distance m \<noteq> None"
    by (auto simp: carries_merchant_list_def has_distance_def list_all_iff
        split: option.splits merchants_value.splits)
  have keys: "\<forall>m \<in> set ms. merchant_distance m = Inr (the (distance m))"
    using dist by (auto simp: merchant_distance_def)
  let ?f = "\<lambda>m. the (distance m)"
  show ?thesis
  proof (cases "length ms > 1")
    case True
    obtain y ys where ys: "sort_key ?f ms = y # ys"
      using ms(2) by (cases "sort_key ?f ms") (auto dest: arg_cong [where f = length])
    have "closest_in y ms"
      using sort_key_hd_least [OF ms(2), of ?f] ys by (simp add: closest_in_def list_all_iff)
    then show ?thesis
      using True ms(1) ys py_sort_all [OF keys]
      by (simp add: merchant_filter_offer_def merchants_len_def merchants_sort_def
          merchants_first_def collapsed_to_closest_def)
  next
    case False
    with ms(2) obtain m where m: "ms = [m]"
      by (cases ms) auto
    then show ?thesis
      using ms(1)
      by (simp add: merchant_filter_offer_def merchants_len_def merchants_first_def
          collapsed_to_closest_def closest_in_def)
  qed
qed

lemma merchant_filter_loop_lists:
  assumes "\<forall>offer \<in> set os. carries_merchant_list offer"
  shows "\<exists>new. merchant_filter_loop os = Inr new \<and> list_all2 collapsed_to_closest os new"
  using assms
proof (induction os)
  case Nil
  then show ?case by simp
next
  case (Cons offer rest)
  from Cons.prems merchant_filter_offer_list [of offer] obtain new_offer
    where 1: "merchant_filter_offer offer = Inr new_offer" "collapsed_to_closest offer new_offer"
    by auto
  from Cons obtain new_rest
    where 2: "merchant_filter_loop rest = Inr new_rest" "list_all2 collapsed_to_closest rest new_rest"
    by auto
  from 1 2 show ?case by simp
qed

lemma merchant_filter_offer_record:
  assumes "merchants offer = Some (Merchant_record m)"
  shows "merchant_filter_offer offer =
           (if merchants_len (Merchant_record m) > 1 then Inl AttributeError
            else Inl (KeyError ''0''))"
  using assms
  by (simp add: merchant_filter_offer_def merchants_sort_def merchants_first_def)

lemma merchant_filter_loop_record:
  assumes "os \<noteq> []" "\<forall>offer \<in> set os. \<exists>m. merchants offer = Some (Merchant_record m)"
  shows "merchant_filter_loop os = Inl AttributeError
         \<or> merchant_filter_loop os = Inl (KeyError ''0'')"
proof -
  from assms obtain offer rest m where "os = offer # rest" "merchants offer = Some (Merchant_record m)"
    by (cases os) auto
  then show ?thesis
    by (simp add: merchant_filter_offer_record)
qed

lemma collapsed_to_closest_record:
  "collapsed_to_closest old new \<Longrightarrow> \<exists>m. merchants new = Some (Merchant_record m)"
proof (cases "merchants new")
  case None
  assume "collapsed_to_closest old new"
  with None show ?thesis
    by (simp add: collapsed_to_closest_def split: option.splits merchants_value.splits)
next
  case (Some v)
  assume "collapsed_to_closest old new"
  with Some show ?thesis
    by (cases v) (simp_all add: collapsed_to_closest_def split: option.splits merchants_value.splits)
qed

text \<open>
  Claim C1 says that \<open>merchant_filter\<close> applied twice gives what it gives applied once.
  It does not: on one offer with a list of two merchants the first application succeeds,
  and the second one raises \<open>AttributeError\<close>, because the value under \<open>merchants\<close> is
  by then a record of three keys, which has no \<open>sort\<close>.
\<close>

theorem merchant_filter_twice_counterexample:
  "carries_merchant_list offer_a
   \<and> merchant_filter \<lparr>checkin_date = ''4-30-2023'', offers = [offer_a]\<rparr>
       = Inr \<lparr>checkin_date = ''4-30-2023'', offers = [single_a]\<rparr>
   \<and> merchant_filter \<lparr>checkin_date = ''4-30-2023'', offers = [single_a]\<rparr>
       = Inl AttributeError
   \<and> bind_err (merchant_filter \<lparr>checkin_date = ''4-30-2023'', offers = [offer_a]\<rparr>)
        merchant_filter
       \<noteq> merchant_filter \<lparr>checkin_date = ''4-30-2023'', offers = [offer_a]\<rparr>"
proof -
  have 0: "carries_merchant_list offer_a"
    by (simp add: carries_merchant_list_def has_distance_def sample_defs)
  have 1: "merchant_filter \<lparr>checkin_date = ''4-30-2023'', offers = [offer_a]\<rparr>
       = Inr \<lparr>checkin_date = ''4-30-2023'', offers = [single_a]\<rparr>"
    by (simp add: merchant_defs sample_defs)
  have 2: "merchant_filter \<lparr>checkin_date = ''4-30-2023'', offers = [single_a]\<rparr>
       = Inl AttributeError"
    by (simp add: merchant_defs sample_defs)
  from 0 1 2 show ?thesis by simp
qed

text \<open>
  Claim C1, amended.  On a working set of distinct offers that each carry a non-empty
  list of merchant records with distances, \<open>merchant_filter\<close> succeeds and collapses
  every offer to a closest merchant of its list.  Applied again to its own result it
  raises \<open>AttributeError\<close> or \<open>KeyError\<close> whenever the working set is not empty; only
  the empty working set is left as it is.
\<close>

theorem merchant_filter_once_then_raises:
  assumes "\<forall>offer \<in> set (offers self). carries_merchant_list offer"
  shows "\<exists>new. merchant_filter self = Inr (self\<lparr>offers := new\<rparr>)
           \<and> list_all2 collapsed_to_closest (offers self) new
           \<and> (if offers self = []
               then merchant_filter (self\<lparr>offers := new\<rparr>) = Inr (self\<lparr>offers := new\<rparr>)
               else merchant_filter (self\<lparr>offers := new\<rparr>) = Inl AttributeError
                    \<or> merchant_filter (self\<lparr>offers := new\<rparr>) = Inl (KeyError ''0''))"
proof -
  from merchant_filter_loop_lists [OF assms] obtain new
    where new: "merchant_filter_loop (offers self) = Inr new"
      "list_all2 collapsed_to_closest (offers self) new"
    by blast
  have once: "merchant_filter self = Inr (self\<lparr>offers := new\<rparr>)"
    using new(1) by (simp add: merchant_filter_def)
  have records: "\<forall>offer \<in> set new. \<exists>m. merchants offer = Some (Merchant_record m)"
    using new(2) collapsed_to_closest_record
    by (metis in_set_conv_nth list_all2_conv_all_nth)
  have len: "length new = length (offers self)"
    using new(2) by (simp add: list_all2_lengthD)
  show ?thesis
  proof (cases "offers self = []")
    case True
    with len have "new = []" by simp
    with once new(2) True show ?thesis
      by (auto simp: merchant_filter_def)
  next
    case False
    with len have "new \<noteq> []" by auto
    from merchant_filter_loop_record [OF this records] once new(2) False show ?thesis
      by (auto simp: merchant_filter_def)
  qed
qed

theorem merchant_filter_once_then_raises_witness:
  "merchant_filter \<lparr>checkin_date = ''4-30-2023'', offers = [offer_c, offer_a]\<rparr>
     = Inr \<lparr>checkin_date = ''4-30-2023'', offers = [single_c, single_a]\<rparr>
   \<and> merchant_filter \<lparr>checkin_date = ''4-30-2023'', offers = [single_c, single_a]\<rparr>
     = Inl (KeyError ''0'')"
proof -
  let ?self = "\<lparr>checkin_date = ''4-30-2023'', offers = [offer_c, offer_a]\<rparr>"
  have lists: "\<forall>offer \<in> set (offers ?self). carries_merchant_list offer"
    by (simp add: carries_merchant_list_def has_distance_def sample_defs)
  from merchant_filter_once_then_raises [OF lists] obtain new
    where new: "merchant_filter ?self = Inr (?self\<lparr>offers := new\<rparr>)"
      "merchant_filter (?self\<lparr>offers := new\<rparr>) = Inl AttributeError
          \<or> merchant_filter (?self\<lparr>offers := new\<rparr>) = Inl (KeyError ''0'')"
    by auto
  have run: "merchant_filter ?self = Inr \<lparr>checkin_date = ''4-30-2023'', offers = [single_c, single_a]\<rparr>"
    by (simp add: merchant_defs sample_defs)
  have no_attr: "merchant_filter \<lparr>checkin_date = ''4-30-2023'', offers = [single_c, single_a]\<rparr>
      \<noteq> Inl AttributeError"
    by (simp add: merchant_defs sample_defs)
  from new run no_attr show ?thesis by auto
qed

section \<open>The closest merchant of each category\<close>

lemmas closest_defs =
  closest_merchant_per_category_filter_def offer_merchant_distance_def py_sort_def
  merchant_distance_def has_single_merchant_def has_distance_def offer_distance_def

lemma single_merchant_key:
  "has_single_merchant offer \<Longrightarrow> offer_merchant_distance offer = Inr (offer_distance offer)"
  by (auto simp: has_single_merchant_def has_distance_def offer_distance_def
      offer_merchant_distance_def merchant_distance_def
      split: option.splits merchants_value.splits)

lemma valid_category_same_name:
  assumes "has_valid_category x" "has_valid_category y"
  shows "offer_category_name x = offer_category_name y \<longleftrightarrow> category x = category y"
  using assms
  by (auto simp: has_valid_category_def offer_category_name_def get_category_enum_eq
      split: option.splits if_splits)

lemma closest_merchant_per_category_loop_result:
  assumes "\<forall>(k, vs) \<in> set m. vs \<noteq> [] \<and> (\<forall>x \<in> set vs. has_single_merchant x)"
  shows "closest_merchant_per_category_loop m answers
           = Inr (answers @ map (\<lambda>(k, vs). hd (sort_key offer_distance vs)) m)"
  using assms
proof (induction m arbitrary: answers)
  case Nil
  then show ?case by simp
next
  case (Cons entry rest)
  obtain k vs where entry: "entry = (k, vs)" by (cases entry) auto
  with Cons.prems have vs: "vs \<noteq> []" "\<forall>x \<in> set vs. has_single_merchant x" by auto
  have sorted: "py_sort offer_merchant_distance vs = Inr (sort_key offer_distance vs)"
    using vs(2) by (intro py_sort_all) (simp add: single_merchant_key)
  obtain y ys where ys: "sort_key offer_distance vs = y # ys"
    using vs(1) by (cases "sort_key offer_distance vs") (auto dest: arg_cong [where f = length])
  have rest: "\<forall>(k, vs) \<in> set rest. vs \<noteq> [] \<and> (\<forall>x \<in> set vs. has_single_merchant x)"
    using Cons.prems by simp
  show ?case
    using entry sorted ys Cons.IH [OF rest, of "answers @ [y]"] by simp
qed

lemma map_of_entry:
  "distinct (map fst m) \<Longrightarrow> (k, vs) \<in> set m \<Longrightarrow> lookup_group m k = vs"
  by (simp add: lookup_group_def)

text \<open>
  Claim C9.  Let every offer of the working set carry a single merchant record with a
  distance and a category id among 1, 2, 3, 4.  Then
  \<open>closest_merchant_per_category_filter\<close> succeeds; its result holds at most one offer
  per category (and one for each category that was present), every offer of the result
  comes from the working set, and its merchant distance is at most that of every offer
  of the same category in the working set before the filter.
\<close>

theorem one_closest_offer_per_category:
  assumes "\<forall>offer \<in> set (offers self). has_single_merchant offer \<and> has_valid_category offer"
  shows "\<exists>answers. closest_merchant_per_category_filter self = Inr (self\<lparr>offers := answers\<rparr>)
           \<and> distinct (map category answers)
           \<and> set (map category answers) = set (map category (offers self))
           \<and> (\<forall>a \<in> set answers. a \<in> set (offers self)
                 \<and> (\<forall>x \<in> set (offers self). category x = category a \<longrightarrow>
                       offer_distance a \<le> offer_distance x))"
proof -
  let ?name = offer_category_name
  let ?pick = "\<lambda>(k, vs). hd (sort_key offer_distance vs)"
  have named: "\<forall>offer \<in> set (offers self). ?name offer \<noteq> None"
    using assms by (simp add: has_valid_category_name)
  from get_category_offers_map_result [OF named] obtain m where
    m: "get_category_offers_map self = Inr m"
    and keys_distinct: "distinct (map fst m)"
    and keys: "set (map fst m) = {k. \<exists>offer \<in> set (offers self). ?name offer = Some k}"
    and groups: "\<forall>k. lookup_group m k = filter (\<lambda>offer. ?name offer = Some k) (offers self)"
    by blast
  have entry: "(\<forall>x. x \<in> set vs \<longleftrightarrow> x \<in> set (offers self) \<and> ?name x = Some k) \<and> vs \<noteq> []"
    if "(k, vs) \<in> set m" for k vs
  proof -
    have "lookup_group m k = vs"
      using keys_distinct that by (rule map_of_entry)
    with groups have "set vs = set (filter (\<lambda>offer. ?name offer = Some k) (offers self))"
      by simp
    then have members: "\<forall>x. x \<in> set vs \<longleftrightarrow> x \<in> set (offers self) \<and> ?name x = Some k"
      by simp
    from that have "k \<in> set (map fst m)" by force
    with keys obtain offer where "offer \<in> set (offers self)" "?name offer = Some k" by auto
    with members have "offer \<in> set vs" by simp
    then have "vs \<noteq> []" by auto
    with members show ?thesis by simp
  qed
  have pick: "?pick (k, vs) \<in> set (offers self) \<and> ?name (?pick (k, vs)) = Some k
       \<and> (\<forall>x \<in> set (offers self). ?name x = Some k \<longrightarrow>
             offer_distance (?pick (k, vs)) \<le> offer_distance x)"
    if "(k, vs) \<in> set m" for k vs
  proof -
    from entry [OF that]
    have members: "\<forall>x. x \<in> set vs \<longleftrightarrow> x \<in> set (offers self) \<and> ?name x = Some k"
      and ne: "vs \<noteq> []" by blast+
    from sort_key_hd_least [OF ne, of offer_distance]
    have hd: "hd (sort_key offer_distance vs) \<in> set vs"
      "\<forall>x \<in> set vs. offer_distance (hd (sort_key offer_distance vs)) \<le> offer_distance x"
      by simp_all
    from hd members show ?thesis by simp
  qed
  have wf: "\<forall>(k, vs) \<in> set m. vs \<noteq> [] \<and> (\<forall>x \<in> set vs. has_single_merchant x)"
  proof (clarify, intro conjI ballI)
    fix k vs assume kvs: "(k, vs) \<in> set m"
    from entry [OF kvs] show "vs \<noteq> []" by simp
    fix x assume "x \<in> set vs"
    with entry [OF kvs] have "x \<in> set (offers self)" by simp
    with assms show "has_single_merchant x" by simp
  qed
  define answers where "answers = map ?pick m"
  have run: "closest_merchant_per_category_filter self = Inr (self\<lparr>offers := answers\<rparr>)"
    using m closest_merchant_per_category_loop_result [OF wf, of "[]"]
    by (simp add: closest_merchant_per_category_filter_def answers_def)
  have names: "map ?name answers = map (\<lambda>entry. Some (fst entry)) m"
    using pick by (auto simp: split_def answers_def)
  have picked: "\<exists>k vs. (k, vs) \<in> set m \<and> a = ?pick (k, vs)" if "a \<in> set answers" for a
    using that by (auto simp: answers_def)
  have in_offers: "\<forall>a \<in> set answers. a \<in> set (offers self)"
    using pick picked by blast
  have valid: "\<forall>a \<in> set answers. has_valid_category a"
    using in_offers assms by blast
  have "distinct (map (\<lambda>entry. Some (fst entry)) m)"
    using keys_distinct by (simp add: distinct_map inj_on_def)
  then have "distinct (map ?name answers)"
    by (simp only: names)
  then have "distinct answers" and inj: "inj_on ?name (set answers)"
    by (simp_all add: distinct_map)
  moreover have "inj_on category (set answers)"
  proof (rule inj_onI)
    fix a b assume ab: "a \<in> set answers" "b \<in> set answers" "category a = category b"
    with valid have "?name a = ?name b"
      by (simp add: valid_category_same_name)
    with inj ab(1,2) show "a = b" by (auto simp: inj_on_def)
  qed
  ultimately have d: "distinct (map category answers)"
    by (simp add: distinct_map)
  have least: "\<forall>a \<in> set answers. \<forall>x \<in> set (offers self). category x = category a \<longrightarrow>
                       offer_distance a \<le> offer_distance x"
  proof (intro ballI impI)
    fix a x assume a: "a \<in> set answers" and x: "x \<in> set (offers self)"
      and same: "category x = category a"
    from picked [OF a] obtain k vs where kvs: "(k, vs) \<in> set m" and a_eq: "a = ?pick (k, vs)"
      by blast
    from pick [OF kvs] a_eq have a_in: "a \<in> set (offers self)" and a_name: "?name a = Some k"
      and le: "\<forall>x \<in> set (offers self). ?name x = Some k \<longrightarrow> offer_distance a \<le> offer_distance x"
      by simp_all
    have "?name x = ?name a"
      using same x a_in assms by (simp add: valid_category_same_name)
    with a_name le x show "offer_distance a \<le> offer_distance x" by simp
  qed
  have cats: "set (map category answers) = set (map category (offers self))"
  proof (intro equalityI subsetI)
    fix c assume "c \<in> set (map category answers)"
    then show "c \<in> set (map category (offers self))" using in_offers by auto
  next
    fix c assume "c \<in> set (map category (offers self))"
    then obtain x where x: "x \<in> set (offers self)" "category x = c" by auto
    with named obtain k where k: "?name x = Some k" by auto
    with x keys have "k \<in> set (map fst m)" by auto
    then obtain vs where kvs: "(k, vs) \<in> set m" by auto
    define a where "a = ?pick (k, vs)"
    from pick [OF kvs] have p: "a \<in> set (offers self)" "?name a = Some k"
      by (simp_all add: a_def)
    have "category a = category x"
      using p k x(1) assms by (simp flip: valid_category_same_name)
    moreover have "a \<in> set answers" using kvs by (force simp: a_def answers_def)
    ultimately have "category a = c" "a \<in> set answers" using x(2) by simp_all
    then show "c \<in> set (map category answers)" by (auto simp: image_iff)
  qed
  from run d cats in_offers least show ?thesis by blast
qed


theorem one_closest_offer_per_category_witness:
  "closest_merchant_per_category_filter
     \<lparr>checkin_date = ''4-30-2023'', offers = [single_a, single_b, single_c]\<rparr>
     = Inr \<lparr>checkin_date = ''4-30-2023'', offers = [single_a, single_c]\<rparr>
   \<and> offer_distance single_c \<le> offer_distance single_b"
proof -
  let ?self = "\<lparr>checkin_date = ''4-30-2023'', offers = [single_a, single_b, single_c]\<rparr>"
  have ok: "\<forall>offer \<in> set (offers ?self). has_single_merchant offer \<and> has_valid_category offer"
    by (simp add: closest_defs category_defs sample_defs)
  have run: "closest_merchant_per_category_filter ?self
     = Inr \<lparr>checkin_date = ''4-30-2023'', offers = [single_a, single_c]\<rparr>"
    by (simp add: closest_defs category_defs sample_defs)
  from one_closest_offer_per_category [OF ok] obtain answers where
    answers: "closest_merchant_per_category_filter ?self = Inr (?self\<lparr>offers := answers\<rparr>)"
      "\<forall>a \<in> set answers. \<forall>x \<in> set (offers ?self). category x = category a \<longrightarrow>
          offer_distance a \<le> offer_distance x"
    by blast
  from answers(1) run have "answers = [single_a, single_c]" by simp
  with answers(2) have "category single_b = category single_c \<longrightarrow>
      offer_distance single_c \<le> offer_distance single_b"
    by simp
  moreover have "category single_b = category single_c"
    by (simp add: sample_defs)
  ultimately show ?thesis using run by simp
qed

section \<open>The two closest offers\<close>



lemma Plus_inf_le [simp]: "Plus_inf \<le> x \<longleftrightarrow> x = Plus_inf"
  by (cases x) simp_all

lemma less_Plus_inf [simp]: "x < Plus_inf \<longleftrightarrow> x \<noteq> Plus_inf"
  by (cases x) (simp_all add: less_py_float_def)










end
